theory Spec2Isabelle
  imports Main
begin

section \<open>Strings and characters\<close>

text \<open>
  A Python \<open>str\<close> is modelled as a \<open>string\<close>; a \<open>char\<close> stands for the code point
  of the same number, so the model covers the strings whose code points are below 256.
  On these code points the class \<open>\d\<close> of Python's \<open>re\<close> (Unicode category Nd)
  is exactly the ASCII digits, and \<open>str.isspace\<close> is the set given by \<open>isspace\<close>.
\<close>

definition code :: "char \<Rightarrow> nat" where
  "code c = of_char c"

definition isdigit :: "char \<Rightarrow> bool" where
  "isdigit c = (48 \<le> code c \<and> code c \<le> 57)"

definition isspace :: "char \<Rightarrow> bool" where
  "isspace c = (let n = code c in
     (9 \<le> n \<and> n \<le> 13) \<or> (28 \<le> n \<and> n \<le> 32) \<or> n = 133 \<or> n = 160)"

definition strip :: "string \<Rightarrow> string" where
  "strip s = rev (dropWhile isspace (rev (dropWhile isspace s)))"

definition newline :: char where
  "newline = CHR 0x0A"

definition quoted :: "string \<Rightarrow> string" where
  "quoted s = CHR 0x27 # s @ [CHR 0x27]"

section \<open>The regular expression of \<open>validate_ip\<close>\<close>

text \<open>
  The constructs of Python's \<open>re\<close> syntax that the pattern uses. \<open>Bol\<close> is \<open>^\<close>,
  \<open>Eol\<close> is \<open>$\<close>, \<open>Digit\<close> is \<open>\d\<close>, \<open>Range a b\<close> is \<open>[a-b]\<close>, \<open>OneOf cs\<close> is
  a class listing its members, \<open>Opt r\<close> is \<open>r?\<close> and \<open>Times n r\<close> is \<open>r{n}\<close>.
\<close>

datatype regex =
    Lit char
  | Digit
  | Range char char
  | OneOf "char list"
  | Seq regex regex
  | Alt regex regex
  | Opt regex
  | Times nat regex
  | Bol
  | Eol

text \<open>
  A matcher state is the number of characters consumed and the rest of the subject.
  \<open>rmatch r st\<close> lists the states in which a match of \<open>r\<close> started at \<open>st\<close> can end, in
  the order in which a backtracking matcher tries them (the greedy \<open>?\<close> tries its
  operand first, an alternation its left branch first). Without the MULTILINE flag,
  \<open>^\<close> matches at the start of the subject only, and \<open>$\<close> matches at the end of the
  subject and also just before a newline that is the last character of the subject.
\<close>

fun reps :: "regex \<Rightarrow> nat" where
  "reps (Times n r) = n"
| "reps r = 0"

function (sequential) rmatch :: "regex \<Rightarrow> nat \<times> string \<Rightarrow> (nat \<times> string) list" where
  "rmatch (Lit c) (i, s) =
     (case s of [] \<Rightarrow> [] | x # xs \<Rightarrow> if x = c then [(Suc i, xs)] else [])"
| "rmatch Digit (i, s) =
     (case s of [] \<Rightarrow> [] | x # xs \<Rightarrow> if isdigit x then [(Suc i, xs)] else [])"
| "rmatch (Range a b) (i, s) =
     (case s of [] \<Rightarrow> []
      | x # xs \<Rightarrow> if code a \<le> code x \<and> code x \<le> code b then [(Suc i, xs)] else [])"
| "rmatch (OneOf cs) (i, s) =
     (case s of [] \<Rightarrow> [] | x # xs \<Rightarrow> if x \<in> set cs then [(Suc i, xs)] else [])"
| "rmatch (Seq r1 r2) st = concat (map (rmatch r2) (rmatch r1 st))"
| "rmatch (Alt r1 r2) st = rmatch r1 st @ rmatch r2 st"
| "rmatch (Opt r) st = rmatch r st @ [st]"
| "rmatch (Times 0 r) st = [st]"
| "rmatch (Times (Suc n) r) st = concat (map (rmatch (Times n r)) (rmatch r st))"
| "rmatch Bol (i, s) = (if i = 0 then [(i, s)] else [])"
| "rmatch Eol (i, s) = (if s = [] \<or> s = [newline] then [(i, s)] else [])"
  by pat_completeness auto
termination
  by (relation "measures [\<lambda>(r, st). size r, \<lambda>(r, st). reps r]") auto

text \<open>\<open>re.compile(p).match(s)\<close> looks for a match of \<open>p\<close> starting at position 0.\<close>

definition re_match :: "regex \<Rightarrow> string \<Rightarrow> (nat \<times> string) option" where
  "re_match p s = (case rmatch p (0, s) of [] \<Rightarrow> None | st # _ \<Rightarrow> Some st)"

text \<open>The group \<open>(?:25[0-5]|2[0-4]\d|[01]?\d\d?)\<close>.\<close>

definition octet :: regex where
  "octet =
     Alt (Seq (Lit CHR ''2'') (Seq (Lit CHR ''5'') (Range CHR ''0'' CHR ''5'')))
    (Alt (Seq (Lit CHR ''2'') (Seq (Range CHR ''0'' CHR ''4'') Digit))
         (Seq (Opt (OneOf ''01'')) (Seq Digit (Opt Digit))))"

text \<open>\<open>^(?:(?:25[0-5]|2[0-4]\d|[01]?\d\d?)\.){3}(?:25[0-5]|2[0-4]\d|[01]?\d\d?)$\<close>\<close>

definition ip_pattern :: regex where
  "ip_pattern =
     Seq Bol (Seq (Times 3 (Seq octet (Lit CHR ''.''))) (Seq octet Eol))"

definition validate_ip :: "string \<Rightarrow> bool" where
  "validate_ip ip = (re_match ip_pattern ip \<noteq> None)"

section \<open>The world the script runs in\<close>

text \<open>
  What the script reads from its surroundings: the answer of \<open>os.path.exists\<close> for
  every path (the file system is taken as it is during the run), the lines of
  standard input (line \<open>k\<close>, without its line terminator; \<open>None\<close> at end of file), and
  what happens when a command is handed to \<open>subprocess.run\<close>. The child runs and
  ends with a return code (its exit status, from 0 to 255, or minus the number of the
  signal that killed it), or the executable is not found, or it is there and cannot
  be executed, for which \<open>subprocess.run\<close> raises another \<open>OSError\<close>.
\<close>

datatype oserror = PermissionError | NotADirectoryError | OtherOSError

datatype proc = Exited int | NotFound | Unrunnable oserror

record env =
  path_exists :: "string \<Rightarrow> bool"
  stdin :: "nat \<Rightarrow> string option"
  spawn :: "string list \<Rightarrow> proc"

text \<open>
  What the script changes: the number of input lines consumed, the chunks written to
  standard output, and the commands handed to \<open>subprocess.run\<close>.
\<close>

record world =
  consumed :: nat
  stdout :: "string list"
  calls :: "string list list"

datatype error =
    EOFError
  | CalledProcessError int
  | FileNotFoundError
  | OSError oserror
  | SystemExit int

type_synonym 'a result = "(error + 'a) \<times> world"

definition print :: "string \<Rightarrow> world \<Rightarrow> world" where
  "print s w = w\<lparr>stdout := stdout w @ [s @ [newline]]\<rparr>"

text \<open>\<open>input(prompt)\<close> writes the prompt, then reads a line; at end of file it raises.\<close>

definition input :: "env \<Rightarrow> string \<Rightarrow> world \<Rightarrow> string result" where
  "input E prompt w =
     (let w1 = w\<lparr>stdout := stdout w @ [prompt]\<rparr> in
      case stdin E (consumed w) of
        None \<Rightarrow> (Inl EOFError, w1)
      | Some line \<Rightarrow> (Inr line, w1\<lparr>consumed := Suc (consumed w)\<rparr>))"

text \<open>
  \<open>subprocess.run(cmd, check=True)\<close> returns when the return code of the child is 0
  and raises \<open>CalledProcessError\<close> with the return code otherwise. It raises
  \<open>FileNotFoundError\<close> when the executable is not found, and the \<open>OSError\<close> of the
  failure when the executable cannot be executed.
\<close>

definition subprocess_run :: "env \<Rightarrow> string list \<Rightarrow> world \<Rightarrow> int result" where
  "subprocess_run E cmd w =
     (let w1 = w\<lparr>calls := calls w @ [cmd]\<rparr> in
      case spawn E cmd of
        NotFound \<Rightarrow> (Inl FileNotFoundError, w1)
      | Unrunnable x \<Rightarrow> (Inl (OSError x), w1)
      | Exited rc \<Rightarrow> if rc \<noteq> 0 then (Inl (CalledProcessError rc), w1) else (Inr rc, w1))"

text \<open>The decimal text of an integer, as an f-string formats it.\<close>

function str_nat :: "nat \<Rightarrow> string" where
  "str_nat n =
     (if n < 10 then [char_of (48 + n)] else str_nat (n div 10) @ [char_of (48 + n mod 10)])"
  by pat_completeness auto
termination
  by (relation "measure id") auto

definition str_int :: "int \<Rightarrow> string" where
  "str_int i = (if i < 0 then CHR ''-'' # str_nat (nat (- i)) else str_nat (nat i))"

text \<open>Sequencing of steps that may raise or may not return.\<close>

definition and_then ::
  "'a result option \<Rightarrow> ('a \<Rightarrow> world \<Rightarrow> 'b result option) \<Rightarrow> 'b result option" where
  "and_then m f =
     (case m of
        None \<Rightarrow> None
      | Some (Inl e, w) \<Rightarrow> Some (Inl e, w)
      | Some (Inr x, w) \<Rightarrow> f x w)"

section \<open>The script\<close>

definition validate_local_path :: "env \<Rightarrow> string \<Rightarrow> bool" where
  "validate_local_path E path = path_exists E path"

text \<open>
  The loop of \<open>prompt_for_input\<close> has no bound: on an input that never ends and never
  validates it does not return, which is the value \<open>None\<close>.
\<close>

partial_function (option) prompt_for_input ::
  "env \<Rightarrow> string \<Rightarrow> (string \<Rightarrow> bool) \<Rightarrow> string \<Rightarrow> world \<Rightarrow> string result option" where
  "prompt_for_input E prompt_message validation_func error_message w =
     (case input E prompt_message w of
        (Inl e, w1) \<Rightarrow> Some (Inl e, w1)
      | (Inr line, w1) \<Rightarrow>
          (let v = strip line in
           if validation_func v then Some (Inr v, w1)
           else prompt_for_input E prompt_message validation_func error_message
                  (print (''Error: '' @ error_message @ ''. Please try again.'') w1)))"

declare prompt_for_input.simps [code]

text \<open>
  The command line as \<open>argparse\<close> sees it: the positional argument and the three
  options, each present or not. \<open>parse_args\<close> fills in the defaults of the options.
\<close>

record argv =
  arg_source :: "string option"
  opt_user :: "string option"
  opt_host :: "string option"
  opt_remote_path :: "string option"

record namespace =
  ns_source :: "string option"
  ns_user :: string
  ns_host :: string
  ns_remote_path :: string

definition parse_args :: "argv \<Rightarrow> namespace" where
  "parse_args c =
     \<lparr>ns_source = arg_source c,
      ns_user = (case opt_user c of None \<Rightarrow> ''cbwinslow'' | Some u \<Rightarrow> u),
      ns_host = (case opt_host c of None \<Rightarrow> ''192.168.6.69'' | Some h \<Rightarrow> h),
      ns_remote_path = (case opt_remote_path c of None \<Rightarrow> ''/home/cbwinslow/'' | Some r \<Rightarrow> r)\<rparr>"

text \<open>
  The namespace that \<open>get_arguments\<close> returns: by then \<open>source\<close> holds a string, the
  one given or the one prompted for.
\<close>

record args =
  source :: string
  user :: string
  host :: string
  remote_path :: string

text \<open>
  \<open>get_arguments\<close> has two blocks, one for the source and one for the host; they are
  \<open>get_source\<close> and \<open>get_host\<close>, each returning the value that the block leaves in
  its field. \<open>not args.source\<close> holds for a missing and for an empty source; \<open>or\<close>
  evaluates \<open>validate_local_path\<close> only on a source that is neither.
\<close>

definition get_source :: "env \<Rightarrow> namespace \<Rightarrow> world \<Rightarrow> string result option" where
  "get_source E a w =
     (case ns_source a of
        None \<Rightarrow>
          prompt_for_input E ''Enter a valid local source path: '' (validate_local_path E)
            ''Path does not exist'' w
      | Some s \<Rightarrow>
          if s = [] \<or> \<not> validate_local_path E s then
            prompt_for_input E ''Enter a valid local source path: '' (validate_local_path E)
              ''Path does not exist''
              (if s \<noteq> [] then
                 print (''Error: Provided source '' @ quoted s @ '' does not exist.'') w
               else w)
          else Some (Inr s, w))"

definition get_host :: "env \<Rightarrow> namespace \<Rightarrow> world \<Rightarrow> string result option" where
  "get_host E a w =
     (if \<not> validate_ip (ns_host a) then
        prompt_for_input E ''Enter a valid IP address for the remote host: '' validate_ip
          ''IP address format is invalid''
          (print (''Error: Provided host IP '' @ quoted (ns_host a) @ '' is invalid.'') w)
      else Some (Inr (ns_host a), w))"

definition get_arguments :: "env \<Rightarrow> argv \<Rightarrow> world \<Rightarrow> args result option" where
  "get_arguments E c w =
     (let a = parse_args c in
      and_then (get_source E a w) (\<lambda>src w1.
      and_then (get_host E a w1) (\<lambda>h w2.
        Some (Inr \<lparr>source = src, user = ns_user a, host = h,
                    remote_path = ns_remote_path a\<rparr>, w2))))"

definition rsync_command :: "args \<Rightarrow> string list" where
  "rsync_command a =
     [''rsync'', ''-avh'', ''--progress'', ''--partial'', ''--inplace'',
      source a, user a @ ''@'' @ host a @ '':'' @ remote_path a]"

definition main :: "env \<Rightarrow> argv \<Rightarrow> world \<Rightarrow> unit result option" where
  "main E c w =
     and_then (get_arguments E c w) (\<lambda>a w1.
       let w2 = print ''Starting file/folder transfer using rsync...'' w1;
           w3 = print (''Source: '' @ source a) w2;
           w4 = print (''Destination: '' @ user a @ ''@'' @ host a @ '':'' @ remote_path a) w3
       in case subprocess_run E (rsync_command a) w4 of
            (Inr rc, w5) \<Rightarrow> Some (Inr (), print ''Transfer completed successfully!'' w5)
          | (Inl (CalledProcessError rc), w5) \<Rightarrow>
              Some (Inl (SystemExit rc),
                    print (''Error: Transfer failed with error code '' @ str_int rc @ ''.'') w5)
          | (Inl FileNotFoundError, w5) \<Rightarrow>
              Some (Inl (SystemExit 1),
                    print ''Error: rsync command not found. Please ensure rsync is installed.'' w5)
          | (Inl e, w5) \<Rightarrow> Some (Inl e, w5))"

text \<open>
  How the interpreter ends the process: status 0 when \<open>main\<close> returns, and a traceback
  with status 1 for an exception that nothing catches. After \<open>sys.exit(n)\<close> the status
  of the process is the low eight bits of \<open>n\<close>, a value from 0 to 255: a process status
  holds no more.
\<close>

fun exit_status :: "error + unit \<Rightarrow> int" where
  "exit_status (Inr u) = 0"
| "exit_status (Inl (SystemExit n)) = n mod 256"
| "exit_status (Inl e) = 1"

fun traceback :: "error + unit \<Rightarrow> bool" where
  "traceback (Inr u) = False"
| "traceback (Inl (SystemExit n)) = False"
| "traceback (Inl e) = True"

definition world0 :: world where
  "world0 = \<lparr>consumed = 0, stdout = [], calls = []\<rparr>"

section \<open>Notions used in the statements\<close>

text \<open>
  The value of a decimal numeral, and the numerals of one to three ASCII digits that
  denote a value from 0 to 255.
\<close>

definition decimal :: "string \<Rightarrow> nat" where
  "decimal s = foldl (\<lambda>n c. 10 * n + (code c - 48)) 0 s"

definition octet_numeral :: "string \<Rightarrow> bool" where
  "octet_numeral s =
     (1 \<le> length s \<and> length s \<le> 3 \<and> list_all isdigit s \<and> decimal s \<le> 255)"

definition dotted :: "string \<Rightarrow> string \<Rightarrow> string \<Rightarrow> string \<Rightarrow> string" where
  "dotted a b c d = a @ ''.'' @ b @ ''.'' @ c @ ''.'' @ d"

text \<open>
  Input line \<open>j\<close> is rejected by a validation function when it is there and its
  stripped text does not validate.
\<close>

definition rejected :: "env \<Rightarrow> (string \<Rightarrow> bool) \<Rightarrow> nat \<Rightarrow> bool" where
  "rejected E f j = (case stdin E j of None \<Rightarrow> False | Some l \<Rightarrow> \<not> f (strip l))"

text \<open>
  What \<open>k\<close> rejected answers leave on standard output (the prompt and the complaint,
  \<open>k\<close> times), the world after them, and the outcome of the loop when the answer after
  them is not rejected.
\<close>

definition retry_line :: "string \<Rightarrow> string" where
  "retry_line e = ''Error: '' @ e @ ''. Please try again.'' @ [newline]"

definition attempts :: "string \<Rightarrow> string \<Rightarrow> nat \<Rightarrow> string list" where
  "attempts p e k = concat (replicate k [p, retry_line e])"

definition after :: "string \<Rightarrow> string \<Rightarrow> nat \<Rightarrow> world \<Rightarrow> world" where
  "after p e k w = w\<lparr>consumed := consumed w + k, stdout := stdout w @ attempts p e k\<rparr>"

definition prompt_outcome ::
  "env \<Rightarrow> string \<Rightarrow> string \<Rightarrow> world \<Rightarrow> nat \<Rightarrow> string result" where
  "prompt_outcome E p e w k =
     (case stdin E (consumed w + k) of
        None \<Rightarrow> (Inl EOFError, (after p e k w)\<lparr>stdout := stdout w @ attempts p e k @ [p]\<rparr>)
      | Some l \<Rightarrow> (Inr (strip l),
          (after p e k w)\<lparr>consumed := Suc (consumed w + k),
                              stdout := stdout w @ attempts p e k @ [p]\<rparr>))"

text \<open>The diagnostics of \<open>get_arguments\<close> and its two prompts.\<close>

definition source_error :: "string \<Rightarrow> string" where
  "source_error s = ''Error: Provided source '' @ quoted s @ '' does not exist.'' @ [newline]"

definition host_error :: "string \<Rightarrow> string" where
  "host_error h = ''Error: Provided host IP '' @ quoted h @ '' is invalid.'' @ [newline]"

definition source_prompt :: string where
  "source_prompt = ''Enter a valid local source path: ''"

definition host_prompt :: string where
  "host_prompt = ''Enter a valid IP address for the remote host: ''"

text \<open>
  A concrete run: only \<open>/tmp/testfile\<close> exists, standard input holds the given lines,
  and the external tool ends as given.
\<close>

definition example_env :: "string list \<Rightarrow> proc \<Rightarrow> env" where
  "example_env lines outcome =
     \<lparr>path_exists = (\<lambda>p. p = ''/tmp/testfile''),
      stdin = (\<lambda>k. if k < length lines then Some (lines ! k) else None),
      spawn = (\<lambda>cmd. outcome)\<rparr>"

definition example_argv :: "string option \<Rightarrow> string option \<Rightarrow> argv" where
  "example_argv src h =
     \<lparr>arg_source = src, opt_user = Some ''alice'', opt_host = h,
      opt_remote_path = Some ''/backup/''\<rparr>"

text \<open>
  When \<open>get_arguments\<close> prompts for the source, and the diagnostic it prints before
  doing so.
\<close>

definition needs_source :: "env \<Rightarrow> namespace \<Rightarrow> bool" where
  "needs_source E a =
     (case ns_source a of None \<Rightarrow> True | Some s \<Rightarrow> s = [] \<or> \<not> validate_local_path E s)"

definition source_complaint :: "namespace \<Rightarrow> string list" where
  "source_complaint a =
     (case ns_source a of None \<Rightarrow> [] | Some s \<Rightarrow> if s = [] then [] else [source_error s])"

text \<open>The three lines \<open>main\<close> prints before it runs the command.\<close>

definition banner :: "args \<Rightarrow> string list" where
  "banner a =
     [''Starting file/folder transfer using rsync...'' @ [newline],
      ''Source: '' @ source a @ [newline],
      ''Destination: '' @ user a @ ''@'' @ host a @ '':'' @ remote_path a @ [newline]]"

text \<open>The request of the concrete runs.\<close>

definition request0 :: args where
  "request0 = \<lparr>source = ''/tmp/testfile'', user = ''alice'', host = ''10.0.0.5'',
                remote_path = ''/backup/''\<rparr>"

section \<open>The matcher on octets\<close>

lemma char_eq_code: "(x = c) = (code x = code c)"
  by (simp add: code_def)

lemma len3_cases:
  assumes "1 \<le> length s" "length s \<le> 3"
  obtains x where "s = [x]" | x y where "s = [x, y]" | x y z where "s = [x, y, z]"
proof (cases s)
  case Nil with assms show ?thesis by simp
next
  case (Cons x s1)
  show ?thesis
  proof (cases s1)
    case Nil with Cons that show ?thesis by simp
  next
    case (Cons y s2)
    note c2 = this
    show ?thesis
    proof (cases s2)
      case Nil with c2 \<open>s = x # s1\<close> that show ?thesis by simp
    next
      case (Cons z s3)
      with c2 \<open>s = x # s1\<close> assms have "s3 = []" by simp
      with Cons c2 \<open>s = x # s1\<close> that show ?thesis by simp
    qed
  qed
qed

lemma octet_one:
  "isdigit x \<Longrightarrow> (Suc i, t) \<in> set (rmatch octet (i, x # t))"
  by (simp add: octet_def)

lemma octet_two:
  "isdigit x \<Longrightarrow> isdigit y \<Longrightarrow> (Suc (Suc i), t) \<in> set (rmatch octet (i, x # y # t))"
  by (simp add: octet_def)

lemma octet_three:
  assumes "isdigit x" "isdigit y" "isdigit z" "decimal [x, y, z] \<le> 255"
  shows "(Suc (Suc (Suc i)), t) \<in> set (rmatch octet (i, x # y # z # t))"
proof -
  have v: "100 * (code x - 48) + 10 * (code y - 48) + (code z - 48) \<le> 255"
    using assms(4) by (simp add: decimal_def)
  consider "code x = 48 \<or> code x = 49" | "code x = 50" "code y \<le> 52"
    | "code x = 50" "code y = 53" "code z \<le> 53"
    using v assms(1-3) unfolding isdigit_def by linarith
  then show ?thesis
  proof cases
    case 1
    then have "x \<in> set ''01''" by (auto simp: char_eq_code code_def)
    with assms(1-3) show ?thesis by (simp add: octet_def)
  next
    case 2
    then have "x = CHR ''2''" by (simp add: char_eq_code code_def)
    moreover have "code CHR ''0'' \<le> code y \<and> code y \<le> code CHR ''4''"
      using 2 assms(2) by (simp add: code_def isdigit_def)
    ultimately show ?thesis using assms(3) by (simp add: octet_def)
  next
    case 3
    then have "x = CHR ''2''" "y = CHR ''5''" by (simp_all add: char_eq_code code_def)
    moreover have "code CHR ''0'' \<le> code z \<and> code z \<le> code CHR ''5''"
      using 3 assms(3) by (simp add: code_def isdigit_def)
    ultimately show ?thesis by (simp add: octet_def)
  qed
qed

lemma octet_matches:
  assumes "octet_numeral a"
  shows "(i + length a, t) \<in> set (rmatch octet (i, a @ t))"
proof -
  from assms have l: "1 \<le> length a" "length a \<le> 3" and d: "list_all isdigit a"
    and v: "decimal a \<le> 255"
    by (simp_all add: octet_numeral_def)
  from l show ?thesis
  proof (cases rule: len3_cases)
    case (1 x)
    with d show ?thesis using octet_one [of x i t] by simp
  next
    case (2 x y)
    with d show ?thesis using octet_two [of x y i t] by simp
  next
    case (3 x y z)
    with d v show ?thesis using octet_three [of x y z i t] by simp
  qed
qed

lemma seq_matches:
  "st1 \<in> set (rmatch r1 st) \<Longrightarrow> st2 \<in> set (rmatch r2 st1) \<Longrightarrow>
   st2 \<in> set (rmatch (Seq r1 r2) st)"
  by auto

lemma octet_dot_matches:
  assumes "octet_numeral a"
  shows "(Suc (i + length a), t) \<in> set (rmatch (Seq octet (Lit CHR ''.'')) (i, a @ ''.'' @ t))"
  using octet_matches [OF assms, of i "''.'' @ t"] by (intro seq_matches) auto

text \<open>
  Conversely, what a match of each construct consumes; with these the pattern is read
  off as a condition on the subject.
\<close>

lemma code_48_57:
  "code CHR ''0'' = 48" "code CHR ''1'' = 49" "code CHR ''2'' = 50" "code CHR ''4'' = 52"
  "code CHR ''5'' = 53"
  by (simp_all add: code_def)

lemma in_Lit: "(j, t) \<in> set (rmatch (Lit c) (i, s)) \<longleftrightarrow> s = c # t \<and> j = Suc i"
  by (cases s) auto

lemma in_Digit:
  "(j, t) \<in> set (rmatch Digit (i, s)) \<longleftrightarrow> (\<exists>x. s = x # t \<and> isdigit x \<and> j = Suc i)"
  by (cases s) auto

lemma in_Range:
  "(j, t) \<in> set (rmatch (Range a b) (i, s)) \<longleftrightarrow>
     (\<exists>x. s = x # t \<and> code a \<le> code x \<and> code x \<le> code b \<and> j = Suc i)"
  by (cases s) auto

lemma in_OneOf:
  "(j, t) \<in> set (rmatch (OneOf cs) (i, s)) \<longleftrightarrow> (\<exists>x. s = x # t \<and> x \<in> set cs \<and> j = Suc i)"
  by (cases s) auto

lemma in_Seq:
  "st2 \<in> set (rmatch (Seq r1 r2) st) \<longleftrightarrow>
     (\<exists>i1 s1. (i1, s1) \<in> set (rmatch r1 st) \<and> st2 \<in> set (rmatch r2 (i1, s1)))"
  by auto

lemma in_Alt:
  "st2 \<in> set (rmatch (Alt r1 r2) st) \<longleftrightarrow>
     st2 \<in> set (rmatch r1 st) \<or> st2 \<in> set (rmatch r2 st)"
  by simp

lemma in_Opt:
  "st2 \<in> set (rmatch (Opt r) st) \<longleftrightarrow> st2 \<in> set (rmatch r st) \<or> st2 = st"
  by auto

lemmas in_rmatch = in_Lit in_Digit in_Range in_OneOf in_Seq in_Alt in_Opt

lemma decimal3:
  "decimal [x, y, z] = 100 * (code x - 48) + 10 * (code y - 48) + (code z - 48)"
  by (simp add: decimal_def)

lemma octet_numeral3:
  "isdigit x \<Longrightarrow> isdigit y \<Longrightarrow> isdigit z \<Longrightarrow>
   100 * (code x - 48) + 10 * (code y - 48) + (code z - 48) \<le> 255 \<Longrightarrow>
   octet_numeral [x, y, z]"
  unfolding octet_numeral_def decimal3 by simp

lemma octet_numeral2:
  assumes "isdigit x" "isdigit y"
  shows "octet_numeral [x, y]"
proof -
  have "10 * (code x - 48) + (code y - 48) \<le> 255"
    using assms unfolding isdigit_def by arith
  with assms show ?thesis by (simp add: octet_numeral_def decimal_def)
qed

lemma octet_numeral1:
  assumes "isdigit x"
  shows "octet_numeral [x]"
proof -
  have "code x - 48 \<le> 255" using assms unfolding isdigit_def by arith
  with assms show ?thesis by (simp add: octet_numeral_def decimal_def)
qed

lemma octet_ends:
  assumes "(j, t) \<in> set (rmatch octet (i, s))"
  shows "\<exists>a. s = a @ t \<and> j = i + length a \<and> octet_numeral a"
proof -
  from assms consider
    (a) x y z where "s = x # y # z # t" "code x = 50" "code y = 53" "48 \<le> code z" "code z \<le> 53"
      "j = Suc (Suc (Suc i))"
  | (b) x y z where "s = x # y # z # t" "code x = 50" "48 \<le> code y" "code y \<le> 52" "isdigit z"
      "j = Suc (Suc (Suc i))"
  | (c3) x y z where "s = x # y # z # t" "code x = 48 \<or> code x = 49" "isdigit y" "isdigit z"
      "j = Suc (Suc (Suc i))"
  | (c2) y z where "s = y # z # t" "isdigit y" "isdigit z" "j = Suc (Suc i)"
  | (c1) y where "s = y # t" "isdigit y" "j = Suc i"
    unfolding octet_def in_rmatch code_48_57 by (auto simp: isdigit_def code_48_57)
  then show ?thesis
  proof cases
    case a
    have "100 * (code x - 48) + 10 * (code y - 48) + (code z - 48) \<le> 255"
      using a(2-5) by arith
    then have "octet_numeral [x, y, z]"
      using a(2-5) by (intro octet_numeral3) (simp_all add: isdigit_def)
    with a show ?thesis by (intro exI [of _ "[x, y, z]"]) simp
  next
    case b
    have "100 * (code x - 48) + 10 * (code y - 48) + (code z - 48) \<le> 255"
      using b(2-5) unfolding isdigit_def by arith
    then have "octet_numeral [x, y, z]"
      using b(2-5) by (intro octet_numeral3) (simp_all add: isdigit_def)
    with b show ?thesis by (intro exI [of _ "[x, y, z]"]) simp
  next
    case c3
    have "100 * (code x - 48) + 10 * (code y - 48) + (code z - 48) \<le> 255"
      using c3(2-4) unfolding isdigit_def by arith
    moreover have "isdigit x" using c3(2) by (auto simp: isdigit_def)
    ultimately have "octet_numeral [x, y, z]"
      using c3(3,4) by (intro octet_numeral3)
    with c3 show ?thesis by (intro exI [of _ "[x, y, z]"]) simp
  next
    case c2
    with octet_numeral2 [of y z] show ?thesis by (intro exI [of _ "[y, z]"]) simp
  next
    case c1
    with octet_numeral1 [of y] show ?thesis by (intro exI [of _ "[y]"]) simp
  qed
qed

lemma octet_dot_ends:
  assumes "(j, t) \<in> set (rmatch (Seq octet (Lit CHR ''.'')) (i, s))"
  shows "\<exists>a. s = a @ ''.'' @ t \<and> j = Suc (i + length a) \<and> octet_numeral a"
proof -
  from assms obtain i1 s1 where 1: "(i1, s1) \<in> set (rmatch octet (i, s))"
    and 2: "(j, t) \<in> set (rmatch (Lit CHR ''.'') (i1, s1))"
    unfolding in_Seq by blast
  from 2 have "s1 = CHR ''.'' # t" "j = Suc i1" unfolding in_Lit by simp_all
  with octet_ends [OF 1] show ?thesis by auto
qed

lemma times3_ends:
  assumes "(j, t) \<in> set (rmatch (Times 3 r) st)"
  shows "\<exists>st1\<in>set (rmatch r st). \<exists>st2\<in>set (rmatch r st1). (j, t) \<in> set (rmatch r st2)"
  using assms by (simp add: eval_nat_numeral)

lemma validate_ip_only:
  assumes "validate_ip s"
  shows "\<exists>a b c d. octet_numeral a \<and> octet_numeral b \<and> octet_numeral c \<and> octet_numeral d \<and>
     (s = dotted a b c d \<or> s = dotted a b c d @ [newline])"
proof -
  let ?od = "Seq octet (Lit CHR ''.'')"
  from assms obtain j t where "(j, t) \<in> set (rmatch ip_pattern (0, s))"
    by (cases "rmatch ip_pattern (0, s)") (auto simp: validate_ip_def re_match_def)
  then obtain i3 s3 i4 s4 where
    t3: "(i3, s3) \<in> set (rmatch (Times 3 ?od) (0, s))" and
    o4: "(i4, s4) \<in> set (rmatch octet (i3, s3))" and
    e: "(j, t) \<in> set (rmatch Eol (i4, s4))"
    unfolding ip_pattern_def in_Seq by auto
  from times3_ends [OF t3] obtain st1 st2 where
    m: "st1 \<in> set (rmatch ?od (0, s))" "st2 \<in> set (rmatch ?od st1)"
      "(i3, s3) \<in> set (rmatch ?od st2)"
    by blast
  obtain i1 s1 where p1: "st1 = (i1, s1)" by (cases st1)
  obtain i2 s2 where p2: "st2 = (i2, s2)" by (cases st2)
  note o1 = m(1) [unfolded p1] and o2 = m(2) [unfolded p1 p2] and o3 = m(3) [unfolded p2]
  from octet_dot_ends [OF o1] obtain a where a: "s = a @ ''.'' @ s1" "octet_numeral a" by blast
  from octet_dot_ends [OF o2] obtain b where b: "s1 = b @ ''.'' @ s2" "octet_numeral b" by blast
  from octet_dot_ends [OF o3] obtain c where c: "s2 = c @ ''.'' @ s3" "octet_numeral c" by blast
  from octet_ends [OF o4] obtain d where d: "s3 = d @ s4" "octet_numeral d" by blast
  from e have "s4 = [] \<or> s4 = [newline]" by (auto split: if_splits)
  with a b c d show ?thesis
    by (intro exI [of _ a] exI [of _ b] exI [of _ c] exI [of _ d]) (auto simp: dotted_def)
qed

text \<open>
  The strings that \<open>validate_ip\<close> accepts are exactly the four dot-separated numerals
  of one to three digits and value at most 255, followed by nothing or by one newline.
\<close>

lemma ip_matches:
  assumes "octet_numeral a" "octet_numeral b" "octet_numeral c" "octet_numeral d"
    and "e = [] \<or> e = [newline]"
  shows "validate_ip (dotted a b c d @ e)"
proof -
  let ?od = "Seq octet (Lit CHR ''.'')"
  let ?s = "dotted a b c d @ e"
  let ?i1 = "Suc (0 + length a)"
  let ?i2 = "Suc (?i1 + length b)"
  let ?i3 = "Suc (?i2 + length c)"
  have 1: "(?i1, b @ ''.'' @ c @ ''.'' @ d @ e) \<in> set (rmatch ?od (0, ?s))"
    using octet_dot_matches [OF assms(1), of 0 "b @ ''.'' @ c @ ''.'' @ d @ e"]
    by (simp add: dotted_def)
  have 2: "(?i2, c @ ''.'' @ d @ e) \<in> set (rmatch ?od (?i1, b @ ''.'' @ c @ ''.'' @ d @ e))"
    by (rule octet_dot_matches [OF assms(2)])
  have 3: "(?i3, d @ e) \<in> set (rmatch ?od (?i2, c @ ''.'' @ d @ e))"
    by (rule octet_dot_matches [OF assms(3)])
  have 4: "(?i3 + length d, e) \<in> set (rmatch octet (?i3, d @ e))"
    by (rule octet_matches [OF assms(4)])
  have t: "(?i3, d @ e) \<in> set (rmatch (Times 3 ?od) (0, ?s))"
    using 1 2 3 by (simp add: eval_nat_numeral) blast
  have 5: "(?i3 + length d, e) \<in> set (rmatch Eol (?i3 + length d, e))"
    using assms(5) by auto
  have "(?i3 + length d, e) \<in> set (rmatch (Seq octet Eol) (?i3, d @ e))"
    using 4 5 by (rule seq_matches)
  with t have "(?i3 + length d, e) \<in> set (rmatch (Seq (Times 3 ?od) (Seq octet Eol)) (0, ?s))"
    by (rule seq_matches)
  moreover have "(0, ?s) \<in> set (rmatch Bol (0, ?s))" by simp
  ultimately have "(?i3 + length d, e) \<in> set (rmatch ip_pattern (0, ?s))"
    unfolding ip_pattern_def by (rule seq_matches [rotated])
  then have "rmatch ip_pattern (0, ?s) \<noteq> []" by auto
  then show ?thesis
    by (simp add: validate_ip_def re_match_def split: list.splits)
qed

lemma validate_ip_iff:
  "validate_ip s \<longleftrightarrow>
     (\<exists>a b c d e. octet_numeral a \<and> octet_numeral b \<and> octet_numeral c \<and> octet_numeral d \<and>
        (e = [] \<or> e = [newline]) \<and> s = dotted a b c d @ e)"
proof
  assume "validate_ip s"
  from validate_ip_only [OF this] obtain a b c d where
    "octet_numeral a" "octet_numeral b" "octet_numeral c" "octet_numeral d"
    "s = dotted a b c d \<or> s = dotted a b c d @ [newline]" by blast
  then show "\<exists>a b c d e. octet_numeral a \<and> octet_numeral b \<and> octet_numeral c \<and>
      octet_numeral d \<and> (e = [] \<or> e = [newline]) \<and> s = dotted a b c d @ e"
    by (metis append_Nil2)
next
  assume "\<exists>a b c d e. octet_numeral a \<and> octet_numeral b \<and> octet_numeral c \<and>
      octet_numeral d \<and> (e = [] \<or> e = [newline]) \<and> s = dotted a b c d @ e"
  then show "validate_ip s" using ip_matches by blast
qed

section \<open>The prompt loop\<close>





lemma consumed_after: "consumed (after p e k w) = consumed w + k"
  by (simp add: after_def)

lemma outcome_after:
  "prompt_outcome E p e (after p e 1 w) k = prompt_outcome E p e w (Suc k)"
  by (simp add: prompt_outcome_def after_def attempts_def split: option.splits)



lemma prompt_cases:
  assumes "prompt_for_input E p f e w = Some y"
  shows "\<exists>k. (\<forall>j<k. rejected E f (consumed w + j)) \<and> \<not> rejected E f (consumed w + k) \<and>
             y = prompt_outcome E p e w k"
proof (rule prompt_for_input.raw_induct
    [where P = "\<lambda>E p f e w y. \<exists>k. (\<forall>j<k. rejected E f (consumed w + j)) \<and>
       \<not> rejected E f (consumed w + k) \<and> y = prompt_outcome E p e w k", OF _ assms])
  fix rec :: "env \<Rightarrow> string \<Rightarrow> (string \<Rightarrow> bool) \<Rightarrow> string \<Rightarrow> world \<Rightarrow> string result option"
  fix E p f e w y
  assume IH: "\<And>E p f e w y. rec E p f e w = Some y \<Longrightarrow>
      \<exists>k. (\<forall>j<k. rejected E f (consumed w + j)) \<and>
       \<not> rejected E f (consumed w + k) \<and> y = prompt_outcome E p e w k"
  assume step: "(case input E p w of (Inl e, w1) \<Rightarrow> Some (Inl e, w1)
      | (Inr line, w1) \<Rightarrow>
          let v = strip line
          in if f v then Some (Inr v, w1)
             else rec E p f e (print (''Error: '' @ e @ ''. Please try again.'') w1)) = Some y"
  show "\<exists>k. (\<forall>j<k. rejected E f (consumed w + j)) \<and>
       \<not> rejected E f (consumed w + k) \<and> y = prompt_outcome E p e w k"
  proof (cases "rejected E f (consumed w)")
    case False
    with step have "y = prompt_outcome E p e w 0"
      by (auto simp: input_def rejected_def prompt_outcome_def after_def attempts_def
          split: option.splits)
    with False show ?thesis by (intro exI [of _ 0]) simp
  next
    case True
    with step have "rec E p f e (after p e 1 w) = Some y"
      by (auto simp: input_def rejected_def after_def attempts_def retry_line_def print_def
          split: option.splits)
    from IH [OF this] obtain k where
      k: "\<forall>j<k. rejected E f (consumed (after p e 1 w) + j)"
         "\<not> rejected E f (consumed (after p e 1 w) + k)"
         "y = prompt_outcome E p e (after p e 1 w) k"
      by blast
    have "\<forall>j<Suc k. rejected E f (consumed w + j)"
    proof (intro allI impI)
      fix j assume "j < Suc k"
      show "rejected E f (consumed w + j)"
      proof (cases j)
        case 0
        with True show ?thesis by simp
      next
        case (Suc j')
        with \<open>j < Suc k\<close> k(1) show ?thesis by (auto simp: consumed_after)
      qed
    qed
    moreover have "\<not> rejected E f (consumed w + Suc k)"
      using k(2) by (simp add: consumed_after)
    moreover have "y = prompt_outcome E p e w (Suc k)"
      using k(3) by (simp only: outcome_after)
    ultimately show ?thesis by blast
  qed
qed


section \<open>The script, step by step\<close>

lemma strip_strip: "strip (strip s) = strip s"
  unfolding strip_def
  by (metis (no_types, lifting) ext Nil_is_rev_conv dropWhile_eq_Nil_conv
    dropWhile_eq_self_iff dropWhile_last hd_dropWhile last_rev rev_swap)

lemma set_attempts: "set (attempts p e k) \<subseteq> {p, retry_line e}"
  by (induction k) (auto simp: attempts_def)

lemma outcome_Inr:
  assumes "prompt_outcome E p e w k = (Inr v, w')"
  shows "\<exists>l. stdin E (consumed w + k) = Some l \<and> v = strip l \<and>
     w' = w\<lparr>consumed := Suc (consumed w + k), stdout := stdout w @ attempts p e k @ [p]\<rparr>"
  using assms by (auto simp: prompt_outcome_def after_def split: option.splits)

lemma outcome_Inl:
  assumes "prompt_outcome E p e w k = (Inl err, w')"
  shows "stdin E (consumed w + k) = None \<and> err = EOFError \<and>
     w' = w\<lparr>consumed := consumed w + k, stdout := stdout w @ attempts p e k @ [p]\<rparr>"
  using assms by (auto simp: prompt_outcome_def after_def split: option.splits)

lemma outcome_world:
  "stdout (snd (prompt_outcome E p e w k)) = stdout w @ attempts p e k @ [p]"
  "calls (snd (prompt_outcome E p e w k)) = calls w"
  "consumed w \<le> consumed (snd (prompt_outcome E p e w k))"
  by (simp_all add: prompt_outcome_def after_def split: option.splits)

lemma prompt_result:
  assumes "prompt_for_input E p f e w = Some (Inr v, w')"
  shows "\<exists>k l. (\<forall>j<k. rejected E f (consumed w + j)) \<and> stdin E (consumed w + k) = Some l \<and>
     f (strip l) \<and> v = strip l \<and>
     w' = w\<lparr>consumed := Suc (consumed w + k), stdout := stdout w @ attempts p e k @ [p]\<rparr>"
proof -
  from prompt_cases [OF assms] obtain k where
    k: "\<forall>j<k. rejected E f (consumed w + j)" "\<not> rejected E f (consumed w + k)"
       "(Inr v, w') = prompt_outcome E p e w k"
    by blast
  from outcome_Inr [OF k(3) [symmetric]] obtain l where
    l: "stdin E (consumed w + k) = Some l" "v = strip l"
       "w' = w\<lparr>consumed := Suc (consumed w + k), stdout := stdout w @ attempts p e k @ [p]\<rparr>"
    by blast
  from k(2) l(1) have "f (strip l)" by (simp add: rejected_def)
  with k(1) l show ?thesis by blast
qed

lemma prompt_error:
  assumes "prompt_for_input E p f e w = Some (Inl err, w')"
  shows "\<exists>k. (\<forall>j<k. rejected E f (consumed w + j)) \<and> stdin E (consumed w + k) = None \<and>
     err = EOFError \<and>
     w' = w\<lparr>consumed := consumed w + k, stdout := stdout w @ attempts p e k @ [p]\<rparr>"
proof -
  from prompt_cases [OF assms] obtain k where
    k: "\<forall>j<k. rejected E f (consumed w + j)"
       "(Inl err, w') = prompt_outcome E p e w k"
    by blast
  from outcome_Inl [OF k(2) [symmetric]] k(1) show ?thesis by blast
qed

lemma get_source_given:
  "ns_source a = Some s \<Longrightarrow> s \<noteq> [] \<Longrightarrow> validate_local_path E s \<Longrightarrow>
   get_source E a w = Some (Inr s, w)"
  by (simp add: get_source_def)

lemma get_source_prompt:
  "needs_source E a \<Longrightarrow>
   get_source E a w =
     prompt_for_input E source_prompt (validate_local_path E) ''Path does not exist''
       (w\<lparr>stdout := stdout w @ source_complaint a\<rparr>)"
  by (auto simp: get_source_def needs_source_def source_complaint_def source_prompt_def
      source_error_def print_def split: option.splits)

lemma get_host_given:
  "validate_ip (ns_host a) \<Longrightarrow> get_host E a w = Some (Inr (ns_host a), w)"
  by (simp add: get_host_def)

lemma get_host_prompt:
  "\<not> validate_ip (ns_host a) \<Longrightarrow>
   get_host E a w =
     prompt_for_input E host_prompt validate_ip ''IP address format is invalid''
       (w\<lparr>stdout := stdout w @ [host_error (ns_host a)]\<rparr>)"
  by (simp add: get_host_def host_prompt_def host_error_def print_def)

lemma needs_source_iff:
  "needs_source E a = (\<forall>s. ns_source a = Some s \<longrightarrow> s = [] \<or> \<not> validate_local_path E s)"
  by (auto simp: needs_source_def split: option.splits)

lemma get_source_Inr:
  assumes "get_source E a w = Some (Inr v, w1)"
  shows "validate_local_path E v \<and> calls w1 = calls w \<and> consumed w \<le> consumed w1"
proof (cases "needs_source E a")
  case True
  from assms [unfolded get_source_prompt [OF True]] prompt_result
  obtain k l where "validate_local_path E (strip l)" "v = strip l"
    "w1 = (w\<lparr>stdout := stdout w @ source_complaint a\<rparr>)\<lparr>consumed := Suc (consumed (w\<lparr>stdout := stdout w @ source_complaint a\<rparr>) + k),
       stdout := stdout (w\<lparr>stdout := stdout w @ source_complaint a\<rparr>) @ attempts source_prompt ''Path does not exist'' k @ [source_prompt]\<rparr>"
    by blast
  then show ?thesis by simp
next
  case False
  then obtain s where "ns_source a = Some s" "s \<noteq> []" "validate_local_path E s"
    by (auto simp: needs_source_iff)
  with assms get_source_given [of a s E w] show ?thesis by simp
qed

lemma get_source_Inl:
  assumes "get_source E a w = Some (Inl err, w1)"
  shows "err = EOFError \<and> calls w1 = calls w \<and> needs_source E a"
proof (cases "needs_source E a")
  case True
  from assms [unfolded get_source_prompt [OF True]] prompt_error [of E _ _ _ _ err w1]
  show ?thesis using True by fastforce
next
  case False
  then obtain s where "ns_source a = Some s" "s \<noteq> []" "validate_local_path E s"
    by (auto simp: needs_source_iff)
  with assms get_source_given [of a s E w] show ?thesis by simp
qed

lemma get_host_Inr:
  assumes "get_host E a w = Some (Inr h, w1)"
  shows "validate_ip h \<and> calls w1 = calls w \<and> consumed w \<le> consumed w1"
proof (cases "validate_ip (ns_host a)")
  case False
  from assms [unfolded get_host_prompt [OF False]] prompt_result [of E _ validate_ip _ _ h w1]
  show ?thesis by fastforce
next
  case True
  with assms get_host_given [of a E w] show ?thesis by simp
qed

lemma get_host_Inl:
  assumes "get_host E a w = Some (Inl err, w1)"
  shows "err = EOFError \<and> calls w1 = calls w \<and> \<not> validate_ip (ns_host a)"
proof (cases "validate_ip (ns_host a)")
  case False
  from assms [unfolded get_host_prompt [OF False]] prompt_error [of E _ _ _ _ err w1]
  show ?thesis using False by fastforce
next
  case True
  with assms get_host_given [of a E w] show ?thesis by simp
qed

lemma get_arguments_Inr:
  assumes "get_arguments E c w = Some (Inr a, w2)"
  shows "\<exists>w1. get_source E (parse_args c) w = Some (Inr (source a), w1) \<and>
     get_host E (parse_args c) w1 = Some (Inr (host a), w2) \<and>
     user a = ns_user (parse_args c) \<and> remote_path a = ns_remote_path (parse_args c)"
  using assms
  by (auto simp: get_arguments_def and_then_def Let_def split: option.splits sum.splits)

lemma get_arguments_Inl:
  assumes "get_arguments E c w = Some (Inl err, w2)"
  shows "get_source E (parse_args c) w = Some (Inl err, w2) \<or>
     (\<exists>v w1. get_source E (parse_args c) w = Some (Inr v, w1) \<and>
        get_host E (parse_args c) w1 = Some (Inl err, w2))"
  using assms
  by (auto simp: get_arguments_def and_then_def Let_def split: option.splits sum.splits)

lemma get_arguments_valid:
  assumes "get_arguments E c w = Some (Inr a, w2)"
  shows "validate_local_path E (source a) \<and> validate_ip (host a) \<and> calls w2 = calls w"
  using get_arguments_Inr [OF assms] get_source_Inr get_host_Inr by fastforce

lemma get_arguments_error:
  assumes "get_arguments E c w = Some (Inl err, w2)"
  shows "err = EOFError \<and> calls w2 = calls w"
  using get_arguments_Inl [OF assms] get_source_Inl get_source_Inr get_host_Inl by fastforce

lemma main_error:
  "get_arguments E c w = Some (Inl err, w1) \<Longrightarrow> main E c w = Some (Inl err, w1)"
  by (simp add: main_def and_then_def)

lemma main_diverges:
  "get_arguments E c w = None \<Longrightarrow> main E c w = None"
  by (simp add: main_def and_then_def)

lemma main_success:
  "get_arguments E c w = Some (Inr a, w1) \<Longrightarrow> spawn E (rsync_command a) = Exited 0 \<Longrightarrow>
   main E c w = Some (Inr (),
     w1\<lparr>stdout := stdout w1 @ banner a @ [''Transfer completed successfully!'' @ [newline]],
        calls := calls w1 @ [rsync_command a]\<rparr>)"
  by (simp add: main_def and_then_def subprocess_run_def print_def banner_def)

lemma main_failed:
  "get_arguments E c w = Some (Inr a, w1) \<Longrightarrow> spawn E (rsync_command a) = Exited n \<Longrightarrow>
   n \<noteq> 0 \<Longrightarrow>
   main E c w = Some (Inl (SystemExit n),
     w1\<lparr>stdout := stdout w1 @ banner a @
           [''Error: Transfer failed with error code '' @ str_int n @ ''.'' @ [newline]],
        calls := calls w1 @ [rsync_command a]\<rparr>)"
  by (simp add: main_def and_then_def subprocess_run_def print_def banner_def)

lemma main_not_found:
  "get_arguments E c w = Some (Inr a, w1) \<Longrightarrow> spawn E (rsync_command a) = NotFound \<Longrightarrow>
   main E c w = Some (Inl (SystemExit 1),
     w1\<lparr>stdout := stdout w1 @ banner a @
           [''Error: rsync command not found. Please ensure rsync is installed.'' @ [newline]],
        calls := calls w1 @ [rsync_command a]\<rparr>)"
  by (simp add: main_def and_then_def subprocess_run_def print_def banner_def)

lemma main_unrunnable:
  "get_arguments E c w = Some (Inr a, w1) \<Longrightarrow> spawn E (rsync_command a) = Unrunnable x \<Longrightarrow>
   main E c w = Some (Inl (OSError x),
     w1\<lparr>stdout := stdout w1 @ banner a, calls := calls w1 @ [rsync_command a]\<rparr>)"
  by (simp add: main_def and_then_def subprocess_run_def print_def banner_def)

lemma main_cases:
  assumes "main E c w = Some (r, w')"
  shows "(\<exists>err. get_arguments E c w = Some (Inl err, w') \<and> r = Inl err) \<or>
     (\<exists>a w1. get_arguments E c w = Some (Inr a, w1) \<and>
        calls w' = calls w1 @ [rsync_command a] \<and> consumed w' = consumed w1)"
proof (cases "get_arguments E c w")
  case None
  with assms main_diverges show ?thesis by simp
next
  case (Some y)
  obtain x w1 where y: "y = (x, w1)" by (cases y)
  show ?thesis
  proof (cases x)
    case (Inl err)
    with Some y assms main_error [of E c w err w1] show ?thesis by simp
  next
    case (Inr a)
    note ga = Some [unfolded y Inr]
    show ?thesis
    proof (cases "spawn E (rsync_command a)")
      case NotFound
      from main_not_found [OF ga NotFound] assms ga show ?thesis by auto
    next
      case (Unrunnable x)
      from main_unrunnable [OF ga Unrunnable] assms ga show ?thesis by auto
    next
      case (Exited n)
      show ?thesis
      proof (cases "n = 0")
        case True
        from main_success [OF ga Exited [unfolded True]] assms ga show ?thesis by auto
      next
        case False
        from main_failed [OF ga Exited False] assms ga show ?thesis by auto
      qed
    qed
  qed
qed




lemma asking_first: "\<exists>rest. attempts p e k @ [p] = p # rest"
  by (cases k) (simp_all add: attempts_def)

lemma set_asking: "set (attempts p e k @ [p]) \<subseteq> {p, retry_line e}"
  using set_attempts [of p e k] by auto

lemma prompt_stdout:
  assumes "prompt_for_input E p f e w = Some (r, w')"
  shows "\<exists>k. stdout w' = stdout w @ attempts p e k @ [p]"
proof -
  from prompt_cases [OF assms] obtain k where "(r, w') = prompt_outcome E p e w k" by blast
  then have "w' = snd (prompt_outcome E p e w k)" by (metis snd_conv)
  then show ?thesis using outcome_world(1) [of E p e w k] by blast
qed

lemma get_source_stdout:
  assumes "get_source E a w = Some (r, w1)"
  shows "(\<not> needs_source E a \<and> w1 = w) \<or>
     (needs_source E a \<and>
      (\<exists>k. stdout w1 = stdout w @ source_complaint a @
              attempts source_prompt ''Path does not exist'' k @ [source_prompt]))"
proof (cases "needs_source E a")
  case True
  from prompt_stdout [OF assms [unfolded get_source_prompt [OF True]]] True
  show ?thesis by simp
next
  case False
  then obtain s where "ns_source a = Some s" "s \<noteq> []" "validate_local_path E s"
    by (auto simp: needs_source_iff)
  with assms get_source_given [of a s E w] False show ?thesis by simp
qed

lemma get_host_stdout:
  assumes "get_host E a w = Some (r, w1)"
  shows "(validate_ip (ns_host a) \<and> w1 = w) \<or>
     (\<not> validate_ip (ns_host a) \<and>
      (\<exists>k. stdout w1 = stdout w @ host_error (ns_host a) #
              attempts host_prompt ''IP address format is invalid'' k @ [host_prompt]))"
proof (cases "validate_ip (ns_host a)")
  case False
  from prompt_stdout [OF assms [unfolded get_host_prompt [OF False]]] False
  show ?thesis by simp
next
  case True
  with assms get_host_given [of a E w] show ?thesis by simp
qed

lemma get_arguments_steps:
  assumes "get_arguments E c w = Some (r, w2)"
  shows "(\<exists>err. get_source E (parse_args c) w = Some (Inl err, w2)) \<or>
     (\<exists>v w1 rh. get_source E (parse_args c) w = Some (Inr v, w1) \<and>
        get_host E (parse_args c) w1 = Some (rh, w2))"
  using assms
  by (auto simp: get_arguments_def and_then_def Let_def split: option.splits sum.splits)

lemma source_error_inject: "source_error s = source_error t \<Longrightarrow> s = t"
  by (simp add: source_error_def quoted_def)

lemma source_error_other:
  "source_error s \<noteq> source_prompt" "source_error s \<noteq> host_prompt"
  "source_error s \<noteq> retry_line ''Path does not exist''"
  "source_error s \<noteq> retry_line ''IP address format is invalid''"
  "source_error s \<noteq> host_error h"
  by (simp_all add: source_error_def source_prompt_def host_prompt_def retry_line_def
      host_error_def)

lemma host_stdout_no_source_error:
  assumes "get_host E a w = Some (r, w1)" and "source_error s \<in> set (stdout w1)"
  shows "source_error s \<in> set (stdout w)"
proof -
  from get_host_stdout [OF assms(1)] show ?thesis
  proof (elim disjE conjE exE)
    assume "w1 = w" with assms(2) show ?thesis by simp
  next
    fix k assume "stdout w1 = stdout w @ host_error (ns_host a) #
        attempts host_prompt ''IP address format is invalid'' k @ [host_prompt]"
    with assms(2) set_asking [of host_prompt "''IP address format is invalid''" k]
      source_error_other [of s] show ?thesis by auto
  qed
qed

lemma source_stdout_source_error:
  assumes "get_source E a w = Some (r, w1)" and "source_error s \<in> set (stdout w1)"
    and "source_error s \<notin> set (stdout w)"
  shows "ns_source a = Some s \<and> s \<noteq> [] \<and> \<not> validate_local_path E s"
proof -
  from get_source_stdout [OF assms(1)] show ?thesis
  proof (elim disjE conjE exE)
    assume "w1 = w" with assms(2,3) show ?thesis by simp
  next
    fix k assume n: "needs_source E a" and "stdout w1 = stdout w @ source_complaint a @
        attempts source_prompt ''Path does not exist'' k @ [source_prompt]"
    with assms(2,3) set_asking [of source_prompt "''Path does not exist''" k]
      source_error_other [of s]
    have "source_error s \<in> set (source_complaint a)" by auto
    then have "\<exists>t. ns_source a = Some t \<and> t \<noteq> [] \<and> source_error s = source_error t"
      by (cases "ns_source a") (auto simp: source_complaint_def split: if_splits)
    then obtain t where t: "ns_source a = Some t" "t \<noteq> []" "source_error s = source_error t"
      by blast
    from source_error_inject [OF t(3)] t(1,2) n show ?thesis
      by (auto simp: needs_source_def)
  qed
qed

section \<open>Claims about \<open>validate_ip\<close>\<close>

text \<open>
  Claim C1 says that \<open>validate_ip\<close> returns false on every string that holds a
  character other than the digits and dots of four groups. The pattern ends in \<open>$\<close>,
  which also matches just before a newline that ends the subject, so the address
  \<open>1.2.3.4\<close> followed by a newline character is accepted. By \<open>validate_ip_iff\<close> that
  optional final newline is the only such character.
\<close>

theorem validate_ip_trailing_newline:
  "validate_ip (''1.2.3.4'' @ [newline])"
  by (simp add: validate_ip_def re_match_def ip_pattern_def octet_def isdigit_def code_def
      eval_nat_numeral)

text \<open>
  Claim C9. For every string of four dot-separated numerals, each of one to three
  digits and of value 0 to 255, leading zeros included, \<open>validate_ip\<close> returns true.
\<close>

theorem validate_ip_leading_zeros:
  assumes "octet_numeral a" "octet_numeral b" "octet_numeral c" "octet_numeral d"
  shows "validate_ip (dotted a b c d)"
  using ip_matches [OF assms, of "[]"] by simp

theorem validate_ip_leading_zeros_witness:
  "octet_numeral ''001'' \<and> octet_numeral ''010'' \<and> octet_numeral ''000'' \<and>
   octet_numeral ''255'' \<and> dotted ''001'' ''010'' ''000'' ''255'' = ''001.010.000.255'' \<and>
   validate_ip ''001.010.000.255''"
proof -
  have a: "octet_numeral ''001''" and b: "octet_numeral ''010''"
    and c: "octet_numeral ''000''" and d: "octet_numeral ''255''"
    by (simp_all add: octet_numeral_def decimal_def isdigit_def code_def)
  have e: "dotted ''001'' ''010'' ''000'' ''255'' = ''001.010.000.255''"
    by (simp add: dotted_def)
  show ?thesis
    using a b c d e validate_ip_leading_zeros [OF a b c d] by simp
qed

section \<open>Claims about the whole run\<close>

text \<open>
  Claim C2. Every value returned by \<open>get_arguments\<close> satisfies
  \<open>validate_local_path\<close> on its source and \<open>validate_ip\<close> on its host. A run of
  \<open>main\<close> hands at most one command to \<open>subprocess.run\<close>, built from such a value.
  When the host given on the command line is malformed and a command is run, its host
  is the stripped text of an input line read during the run, which passes the check.
\<close>

theorem validated_before_invocation:
  "(get_arguments E c w = Some (Inr a, w1) \<longrightarrow>
      validate_local_path E (source a) \<and> validate_ip (host a)) \<and>
   (main E c w = Some (r, w') \<longrightarrow>
      calls w' = calls w \<or>
      (\<exists>b. calls w' = calls w @ [rsync_command b] \<and>
           validate_local_path E (source b) \<and> validate_ip (host b))) \<and>
   (main E c w = Some (r, w') \<and> \<not> validate_ip (ns_host (parse_args c)) \<and>
    calls w' \<noteq> calls w \<longrightarrow>
      (\<exists>b k l. calls w' = calls w @ [rsync_command b] \<and> consumed w \<le> k \<and>
           k < consumed w' \<and> stdin E k = Some l \<and> host b = strip l \<and>
           validate_ip (strip l)))"
proof -
  have A: "validate_local_path E (source a) \<and> validate_ip (host a)"
    if "get_arguments E c w = Some (Inr a, w1)"
    using get_arguments_valid [OF that] by simp
  have B: "calls w' = calls w \<or>
      (\<exists>b. calls w' = calls w @ [rsync_command b] \<and>
           validate_local_path E (source b) \<and> validate_ip (host b))"
    if m: "main E c w = Some (r, w')"
    using main_cases [OF m]
  proof (elim disjE exE conjE)
    fix err assume "get_arguments E c w = Some (Inl err, w')"
    from get_arguments_error [OF this] show ?thesis by simp
  next
    fix b w1 assume g: "get_arguments E c w = Some (Inr b, w1)"
      and "calls w' = calls w1 @ [rsync_command b]"
    with get_arguments_valid [OF g] show ?thesis by auto
  qed
  have C: "\<exists>b k l. calls w' = calls w @ [rsync_command b] \<and>
      consumed w \<le> k \<and> k < consumed w' \<and> stdin E k = Some l \<and> host b = strip l \<and>
      validate_ip (strip l)"
    if m: "main E c w = Some (r, w')" and bad: "\<not> validate_ip (ns_host (parse_args c))"
      and inv: "calls w' \<noteq> calls w"
    using main_cases [OF m]
  proof (elim disjE exE conjE)
    fix err assume "get_arguments E c w = Some (Inl err, w')"
    from get_arguments_error [OF this] inv show ?thesis by simp
  next
    fix b w2 assume g: "get_arguments E c w = Some (Inr b, w2)"
      and cl: "calls w' = calls w2 @ [rsync_command b]" and c3: "consumed w' = consumed w2"
    from get_arguments_Inr [OF g] obtain w1 where
      s: "get_source E (parse_args c) w = Some (Inr (source b), w1)" and
      h: "get_host E (parse_args c) w1 = Some (Inr (host b), w2)" by blast
    from get_source_Inr [OF s] have c1: "consumed w \<le> consumed w1" by simp
    let ?w = "w1\<lparr>stdout := stdout w1 @ [host_error (ns_host (parse_args c))]\<rparr>"
    from h [unfolded get_host_prompt [OF bad]]
    have "prompt_for_input E host_prompt validate_ip ''IP address format is invalid'' ?w =
        Some (Inr (host b), w2)" .
    from prompt_result [OF this] obtain k l where
      kl: "stdin E (consumed ?w + k) = Some l" "validate_ip (strip l)" "host b = strip l"
        "w2 = ?w\<lparr>consumed := Suc (consumed ?w + k),
           stdout := stdout ?w @ attempts host_prompt ''IP address format is invalid'' k @
             [host_prompt]\<rparr>"
      by blast
    have c2: "consumed w2 = Suc (consumed w1 + k)" using kl(4) by simp
    have "calls w' = calls w @ [rsync_command b]"
      using cl get_arguments_valid [OF g] by simp
    moreover have "consumed w \<le> consumed w1 + k" using c1 by simp
    moreover have "consumed w1 + k < consumed w'" using c2 c3 by simp
    moreover have "stdin E (consumed w1 + k) = Some l" using kl(1) by simp
    ultimately show ?thesis using kl(2,3) by blast
  qed
  from A B C show ?thesis by blast
qed

theorem validated_before_invocation_witness:
  "\<not> validate_ip ''999.1.1.1'' \<and>
   get_arguments (example_env [''10.0.0.5''] (Exited 0))
     (example_argv (Some ''/tmp/testfile'') (Some ''999.1.1.1'')) world0 =
     Some (Inr request0,
       \<lparr>consumed = 1, stdout = [host_error ''999.1.1.1'', host_prompt], calls = []\<rparr>) \<and>
   validate_local_path (example_env [''10.0.0.5''] (Exited 0)) (source request0) \<and>
   validate_ip (host request0) \<and>
   (\<exists>b k l. [rsync_command request0] = calls world0 @ [rsync_command b] \<and>
      consumed world0 \<le> k \<and> k < 1 \<and>
      stdin (example_env [''10.0.0.5''] (Exited 0)) k = Some l \<and> host b = strip l \<and>
      validate_ip (strip l))"
proof -
  let ?E = "example_env [''10.0.0.5''] (Exited 0)"
  let ?c = "example_argv (Some ''/tmp/testfile'') (Some ''999.1.1.1'')"
  let ?w1 = "\<lparr>consumed = 1, stdout = [host_error ''999.1.1.1'', host_prompt], calls = []\<rparr>"
  let ?w' = "\<lparr>consumed = 1,
     stdout = [host_error ''999.1.1.1'', host_prompt] @ banner request0 @
       [''Transfer completed successfully!'' @ [newline]],
     calls = [rsync_command request0]\<rparr>"
  have bad: "\<not> validate_ip ''999.1.1.1''" by code_simp
  have g: "get_arguments ?E ?c world0 = Some (Inr request0, ?w1)" by code_simp
  have m: "main ?E ?c world0 = Some (Inr (), ?w')" by code_simp
  have h: "\<not> validate_ip (ns_host (parse_args ?c))"
    using bad by (simp add: parse_args_def example_argv_def)
  have ne: "calls ?w' \<noteq> calls world0" by (simp add: world0_def)
  note t = validated_before_invocation [of ?E ?c world0 request0 ?w1 "Inr ()" ?w']
  from t g have 1: "validate_local_path ?E (source request0) \<and> validate_ip (host request0)"
    by blast
  from t m h ne have 2: "\<exists>b k l. calls ?w' = calls world0 @ [rsync_command b] \<and>
      consumed world0 \<le> k \<and> k < consumed ?w' \<and> stdin ?E k = Some l \<and> host b = strip l \<and>
      validate_ip (strip l)"
    by blast
  from bad g 1 2 show ?thesis by simp
qed

text \<open>
  Claim C3. For the request that \<open>get_arguments\<close> returns, \<open>main\<close> runs exactly the
  command \<open>rsync -avh --progress --partial --inplace\<close> followed by the source,
  unmodified, and by the destination \<open>user@host:remote_path\<close>; user and remote path
  are those of the command line.
\<close>

theorem rsync_invocation:
  assumes "get_arguments E c w = Some (Inr a, w1)"
  shows "\<exists>r w'. main E c w = Some (r, w') \<and>
     calls w' = calls w @
       [[''rsync'', ''-avh'', ''--progress'', ''--partial'', ''--inplace'',
         source a, user a @ ''@'' @ host a @ '':'' @ remote_path a]] \<and>
     user a = ns_user (parse_args c) \<and> remote_path a = ns_remote_path (parse_args c)"
proof -
  have c: "calls w1 = calls w" using get_arguments_valid [OF assms] by simp
  have u: "user a = ns_user (parse_args c) \<and> remote_path a = ns_remote_path (parse_args c)"
    using get_arguments_Inr [OF assms] by blast
  show ?thesis
  proof (cases "spawn E (rsync_command a)")
    case NotFound
    from main_not_found [OF assms NotFound] c u show ?thesis
      by (simp add: rsync_command_def)
  next
    case (Unrunnable x)
    from main_unrunnable [OF assms Unrunnable] c u show ?thesis
      by (simp add: rsync_command_def)
  next
    case (Exited n)
    show ?thesis
    proof (cases "n = 0")
      case True
      from main_success [OF assms Exited [unfolded True]] c u show ?thesis
        by (simp add: rsync_command_def)
    next
      case False
      from main_failed [OF assms Exited False] c u show ?thesis
        by (simp add: rsync_command_def)
    qed
  qed
qed

theorem rsync_invocation_witness:
  "get_arguments (example_env [] (Exited 0))
     (example_argv (Some ''/tmp/testfile'') (Some ''10.0.0.5'')) world0 =
     Some (Inr request0, world0) \<and>
   (\<exists>r w'. main (example_env [] (Exited 0))
        (example_argv (Some ''/tmp/testfile'') (Some ''10.0.0.5'')) world0 = Some (r, w') \<and>
      calls w' =
        [[''rsync'', ''-avh'', ''--progress'', ''--partial'', ''--inplace'',
          ''/tmp/testfile'', ''alice@10.0.0.5:/backup/'']])"
proof -
  let ?E = "example_env [] (Exited 0)"
  let ?c = "example_argv (Some ''/tmp/testfile'') (Some ''10.0.0.5'')"
  have g: "get_arguments ?E ?c world0 = Some (Inr request0, world0)" by code_simp
  from rsync_invocation [OF g] obtain r w' where
    m: "main ?E ?c world0 = Some (r, w')" and
    i: "calls w' = calls world0 @
       [[''rsync'', ''-avh'', ''--progress'', ''--partial'', ''--inplace'', source request0,
         user request0 @ ''@'' @ host request0 @ '':'' @ remote_path request0]]"
    by blast
  from i have "calls w' =
      [[''rsync'', ''-avh'', ''--progress'', ''--partial'', ''--inplace'',
        ''/tmp/testfile'', ''alice@10.0.0.5:/backup/'']]"
    by (simp add: request0_def world0_def)
  with g m show ?thesis by blast
qed

text \<open>
  Claim C4, as stated, fails for a return code that is not a process status. A child
  killed by signal 9 has return code -9: the script reports -9 and calls
  \<open>sys.exit(-9)\<close>, and its own status is 247.
\<close>

theorem transfer_killed_status:
  "main (example_env [] (Exited (- 9)))
     (example_argv (Some ''/tmp/testfile'') (Some ''10.0.0.5'')) world0 =
     Some (Inl (SystemExit (- 9)),
       \<lparr>consumed = 0,
        stdout = banner request0 @ [''Error: Transfer failed with error code -9.'' @ [newline]],
        calls = [rsync_command request0]\<rparr>) \<and>
   exit_status (Inl (SystemExit (- 9))) = 247"
  by code_simp

text \<open>
  Claim C4, amended. When the return code \<open>n\<close> of the external tool is not 0, the last
  line printed reports \<open>n\<close> and the script ends without a traceback, with the low eight
  bits of \<open>n\<close> as its status; when the tool exited with a status \<open>n\<close> from 1 to 255,
  the status of the script is exactly \<open>n\<close>.
\<close>

theorem transfer_failure_status:
  assumes "get_arguments E c w = Some (Inr a, w1)"
      and "spawn E (rsync_command a) = Exited n" and "n \<noteq> 0"
  shows "\<exists>r w'. main E c w = Some (r, w') \<and> exit_status r = n mod 256 \<and>
     (1 \<le> n \<and> n \<le> 255 \<longrightarrow> exit_status r = n) \<and> \<not> traceback r \<and>
     last (stdout w') =
       ''Error: Transfer failed with error code '' @ str_int n @ ''.'' @ [newline]"
  using main_failed [OF assms] by simp

theorem transfer_failure_status_witness:
  "(\<exists>r w'. main (example_env [] (Exited 23))
        (example_argv (Some ''/tmp/testfile'') (Some ''10.0.0.5'')) world0 = Some (r, w') \<and>
      exit_status r = 23 \<and> \<not> traceback r \<and>
      last (stdout w') = ''Error: Transfer failed with error code 23.'' @ [newline]) \<and>
   (\<exists>r w'. main (example_env [] (Exited 1))
        (example_argv (Some ''/tmp/testfile'') (Some ''10.0.0.5'')) world0 = Some (r, w') \<and>
      exit_status r = 1 \<and> \<not> traceback r \<and>
      last (stdout w') = ''Error: Transfer failed with error code 1.'' @ [newline])"
proof -
  let ?c = "example_argv (Some ''/tmp/testfile'') (Some ''10.0.0.5'')"
  have g23: "get_arguments (example_env [] (Exited 23)) ?c world0 = Some (Inr request0, world0)"
    by code_simp
  have g1: "get_arguments (example_env [] (Exited 1)) ?c world0 = Some (Inr request0, world0)"
    by code_simp
  have s23: "spawn (example_env [] (Exited 23)) (rsync_command request0) = Exited 23"
    by (simp add: example_env_def)
  have s1: "spawn (example_env [] (Exited 1)) (rsync_command request0) = Exited 1"
    by (simp add: example_env_def)
  have t23: "str_int 23 = ''23''" by code_simp
  have t1: "str_int 1 = ''1''" by code_simp
  from transfer_failure_status [OF g23 s23] transfer_failure_status [OF g1 s1] t23 t1
  show ?thesis by simp
qed

text \<open>
  Claim C5, as stated, fails where the executable is there and cannot be executed:
  \<open>subprocess.run\<close> raises \<open>PermissionError\<close>, which \<open>main\<close> does not catch, and the
  script ends in a traceback, with no diagnostic after the three lines of the banner.
\<close>

theorem tool_not_executable:
  "main (example_env [] (Unrunnable PermissionError))
     (example_argv (Some ''/tmp/testfile'') (Some ''10.0.0.5'')) world0 =
     Some (Inl (OSError PermissionError),
       \<lparr>consumed = 0, stdout = banner request0, calls = [rsync_command request0]\<rparr>) \<and>
   traceback (Inl (OSError PermissionError))"
  by code_simp

text \<open>
  Claim C5, amended. When the external tool cannot be found (\<open>subprocess.run\<close> raises
  \<open>FileNotFoundError\<close>), the script prints the "rsync command not found" diagnostic and
  exits with status 1, without a traceback.
\<close>

theorem tool_not_found:
  assumes "get_arguments E c w = Some (Inr a, w1)"
      and "spawn E (rsync_command a) = NotFound"
  shows "\<exists>r w'. main E c w = Some (r, w') \<and> exit_status r = 1 \<and> \<not> traceback r \<and>
     last (stdout w') =
       ''Error: rsync command not found. Please ensure rsync is installed.'' @ [newline]"
  using main_not_found [OF assms] by simp

theorem tool_not_found_witness:
  "\<exists>r w'. main (example_env [] NotFound)
        (example_argv (Some ''/tmp/testfile'') (Some ''10.0.0.5'')) world0 = Some (r, w') \<and>
      exit_status r = 1 \<and> \<not> traceback r \<and>
      last (stdout w') =
        ''Error: rsync command not found. Please ensure rsync is installed.'' @ [newline]"
proof -
  let ?c = "example_argv (Some ''/tmp/testfile'') (Some ''10.0.0.5'')"
  have g: "get_arguments (example_env [] NotFound) ?c world0 = Some (Inr request0, world0)"
    by code_simp
  have s: "spawn (example_env [] NotFound) (rsync_command request0) = NotFound"
    by (simp add: example_env_def)
  from tool_not_found [OF g s] show ?thesis .
qed

text \<open>
  Claim C6. When the external tool exits with status 0, the script reports success
  and exits with status 0.
\<close>

theorem transfer_success:
  assumes "get_arguments E c w = Some (Inr a, w1)"
      and "spawn E (rsync_command a) = Exited 0"
  shows "\<exists>r w'. main E c w = Some (r, w') \<and> exit_status r = 0 \<and> \<not> traceback r \<and>
     last (stdout w') = ''Transfer completed successfully!'' @ [newline]"
  using main_success [OF assms] by simp

theorem transfer_success_witness:
  "\<exists>r w'. main (example_env [] (Exited 0))
        (example_argv (Some ''/tmp/testfile'') (Some ''10.0.0.5'')) world0 = Some (r, w') \<and>
      exit_status r = 0 \<and> \<not> traceback r \<and>
      last (stdout w') = ''Transfer completed successfully!'' @ [newline]"
proof -
  let ?c = "example_argv (Some ''/tmp/testfile'') (Some ''10.0.0.5'')"
  have g: "get_arguments (example_env [] (Exited 0)) ?c world0 = Some (Inr request0, world0)"
    by code_simp
  have s: "spawn (example_env [] (Exited 0)) (rsync_command request0) = Exited 0"
    by (simp add: example_env_def)
  from transfer_success [OF g s] show ?thesis .
qed



text \<open>
  Claim C10. When the source argument is omitted, the first thing \<open>get_arguments\<close>
  writes is the prompt for a source path, with no diagnostic before it. The diagnostic
  that a provided source does not exist, naming a value \<open>s\<close>, is written only when
  \<open>s\<close> was given on the command line, is not empty and does not exist.
\<close>

theorem omitted_source_no_diagnostic:
  "(arg_source c = None \<and> get_arguments E c w = Some (r, w') \<longrightarrow>
      (\<exists>rest. stdout w' = stdout w @ source_prompt # rest)) \<and>
   (get_arguments E c w = Some (r, w') \<and> source_error s \<in> set (stdout w') \<and>
    source_error s \<notin> set (stdout w) \<longrightarrow>
      arg_source c = Some s \<and> s \<noteq> [] \<and> \<not> validate_local_path E s)"
proof -
  have ns: "ns_source (parse_args c) = arg_source c" by (simp add: parse_args_def)
  have A: "\<exists>rest. stdout w' = stdout w @ source_prompt # rest"
    if none: "arg_source c = None" and g: "get_arguments E c w = Some (r, w')"
  proof -
    have need: "needs_source E (parse_args c)" and quiet: "source_complaint (parse_args c) = []"
      using none ns by (simp_all add: needs_source_def source_complaint_def)
    have src: "\<exists>rest. stdout w1 = stdout w @ source_prompt # rest"
      if "get_source E (parse_args c) w = Some (x, w1)" for x w1
    proof -
      from get_source_stdout [OF that] need quiet obtain k where
        "stdout w1 = stdout w @ attempts source_prompt ''Path does not exist'' k @ [source_prompt]"
        by auto
      with asking_first [of source_prompt "''Path does not exist''" k] show ?thesis by auto
    qed
    from get_arguments_steps [OF g] show ?thesis
    proof (elim disjE exE conjE)
      fix err assume "get_source E (parse_args c) w = Some (Inl err, w')"
      from src [OF this] show ?thesis .
    next
      fix v w1 rh assume s: "get_source E (parse_args c) w = Some (Inr v, w1)"
        and h: "get_host E (parse_args c) w1 = Some (rh, w')"
      from src [OF s] obtain rest where r: "stdout w1 = stdout w @ source_prompt # rest" by blast
      from get_host_stdout [OF h] obtain more where "stdout w' = stdout w1 @ more" by auto
      with r show ?thesis by simp
    qed
  qed
  have B: "arg_source c = Some s \<and> s \<noteq> [] \<and> \<not> validate_local_path E s"
    if g: "get_arguments E c w = Some (r, w')" and i: "source_error s \<in> set (stdout w')"
      and o: "source_error s \<notin> set (stdout w)"
    using get_arguments_steps [OF g]
  proof (elim disjE exE conjE)
    fix err assume "get_source E (parse_args c) w = Some (Inl err, w')"
    from source_stdout_source_error [OF this i o] ns show ?thesis by simp
  next
    fix v w1 rh assume s: "get_source E (parse_args c) w = Some (Inr v, w1)"
      and h: "get_host E (parse_args c) w1 = Some (rh, w')"
    from host_stdout_no_source_error [OF h i] have "source_error s \<in> set (stdout w1)" .
    from source_stdout_source_error [OF s this o] ns show ?thesis by simp
  qed
  from A B show ?thesis by blast
qed

theorem omitted_source_no_diagnostic_witness:
  "get_arguments (example_env [''/tmp/testfile''] (Exited 0))
     (example_argv None (Some ''10.0.0.5'')) world0 =
     Some (Inr request0, \<lparr>consumed = 1, stdout = [source_prompt], calls = []\<rparr>) \<and>
   (\<exists>rest. [source_prompt] = stdout world0 @ source_prompt # rest) \<and>
   get_arguments (example_env [''/tmp/testfile''] (Exited 0))
     (example_argv (Some ''nothere'') (Some ''10.0.0.5'')) world0 =
     Some (Inr request0,
       \<lparr>consumed = 1, stdout = [source_error ''nothere'', source_prompt], calls = []\<rparr>) \<and>
   source_error ''nothere'' \<notin> set (stdout world0) \<and>
   \<not> validate_local_path (example_env [''/tmp/testfile''] (Exited 0)) ''nothere''"
proof -
  let ?E = "example_env [''/tmp/testfile''] (Exited 0)"
  let ?c = "example_argv None (Some ''10.0.0.5'')"
  let ?d = "example_argv (Some ''nothere'') (Some ''10.0.0.5'')"
  let ?w1 = "\<lparr>consumed = 1, stdout = [source_prompt], calls = []\<rparr>"
  let ?w2 = "\<lparr>consumed = 1, stdout = [source_error ''nothere'', source_prompt], calls = []\<rparr>"
  have g1: "get_arguments ?E ?c world0 = Some (Inr request0, ?w1)" by code_simp
  have g2: "get_arguments ?E ?d world0 = Some (Inr request0, ?w2)" by code_simp
  have none: "arg_source ?c = None" by (simp add: example_argv_def)
  have i: "source_error ''nothere'' \<in> set (stdout ?w2)" by simp
  have o: "source_error ''nothere'' \<notin> set (stdout world0)" by (simp add: world0_def)
  from omitted_source_no_diagnostic [of ?c ?E world0 "Inr request0" ?w1 "''nothere''"] none g1
  have 1: "\<exists>rest. stdout ?w1 = stdout world0 @ source_prompt # rest" by blast
  from omitted_source_no_diagnostic [of ?d ?E world0 "Inr request0" ?w2 "''nothere''"] g2 i o
  have 2: "\<not> validate_local_path ?E ''nothere''" by blast
  from 1 have 1: "\<exists>rest. [source_prompt] = stdout world0 @ source_prompt # rest" by simp
  show ?thesis by (intro conjI) (fact g1 1 g2 o 2)+
qed

text \<open>
  Claim C7, as stated, fails where the source is given as the empty string: it does not
  exist, yet \<open>get_arguments\<close> prints no diagnostic for it and goes straight to the
  prompt.
\<close>

theorem empty_source_no_diagnostic:
  "\<not> validate_local_path (example_env [''/tmp/testfile''] (Exited 0)) [] \<and>
   get_arguments (example_env [''/tmp/testfile''] (Exited 0))
     (example_argv (Some []) (Some ''10.0.0.5'')) world0 =
     Some (Inr request0, \<lparr>consumed = 1, stdout = [source_prompt], calls = []\<rparr>)"
  by code_simp

text \<open>
  Claim C7, amended. Whenever \<open>prompt_for_input\<close> returns a value, the value satisfies
  the validation function and is stripped of surrounding whitespace; it is the stripped
  text of the first input line that is not rejected, and the prompt was written once for
  every line read. A source that is given, not empty and does not exist is named in a
  diagnostic written first, followed by the prompt. Once the source is settled, a host
  that fails the check is named in a diagnostic written next, followed by the prompt.
\<close>

theorem repair_loop:
  "(prompt_for_input E p f e w = Some (Inr v, w') \<longrightarrow>
      f v \<and> strip v = v \<and>
      (\<exists>k l. (\<forall>j<k. rejected E f (consumed w + j)) \<and> stdin E (consumed w + k) = Some l \<and>
         v = strip l \<and> consumed w' = Suc (consumed w + k) \<and>
         stdout w' = stdout w @ attempts p e k @ [p])) \<and>
   (arg_source c = Some s \<and> s \<noteq> [] \<and> \<not> validate_local_path E s \<and>
    get_arguments E c w = Some (r, w2) \<longrightarrow>
      (\<exists>rest. stdout w2 = stdout w @ source_error s # source_prompt # rest)) \<and>
   (get_source E (parse_args c) w = Some (Inr x, w1) \<and>
    \<not> validate_ip (ns_host (parse_args c)) \<and> get_arguments E c w = Some (r, w2) \<longrightarrow>
      (\<exists>rest. stdout w2 =
         stdout w1 @ host_error (ns_host (parse_args c)) # host_prompt # rest))"
proof -
  have A: "f v \<and> strip v = v \<and>
      (\<exists>k l. (\<forall>j<k. rejected E f (consumed w + j)) \<and> stdin E (consumed w + k) = Some l \<and>
         v = strip l \<and> consumed w' = Suc (consumed w + k) \<and>
         stdout w' = stdout w @ attempts p e k @ [p])"
    if "prompt_for_input E p f e w = Some (Inr v, w')"
  proof -
    from prompt_result [OF that] obtain k l where
      kl: "\<forall>j<k. rejected E f (consumed w + j)" "stdin E (consumed w + k) = Some l"
        "f (strip l)" "v = strip l"
        "w' = w\<lparr>consumed := Suc (consumed w + k), stdout := stdout w @ attempts p e k @ [p]\<rparr>"
      by blast
    from kl(5) have "consumed w' = Suc (consumed w + k)"
      "stdout w' = stdout w @ attempts p e k @ [p]" by simp_all
    with kl(1-4) strip_strip [of l] show ?thesis by auto
  qed
  have B: "\<exists>rest. stdout w2 = stdout w @ source_error s # source_prompt # rest"
    if s: "arg_source c = Some s" "s \<noteq> []" "\<not> validate_local_path E s"
      and g: "get_arguments E c w = Some (r, w2)"
  proof -
    have need: "needs_source E (parse_args c)"
      and loud: "source_complaint (parse_args c) = [source_error s]"
      using s by (simp_all add: needs_source_def source_complaint_def parse_args_def)
    have src: "\<exists>rest. stdout w1 = stdout w @ source_error s # source_prompt # rest"
      if "get_source E (parse_args c) w = Some (y, w1)" for y w1
    proof -
      from get_source_stdout [OF that] need loud obtain k where
        "stdout w1 = stdout w @ source_error s #
           attempts source_prompt ''Path does not exist'' k @ [source_prompt]"
        by auto
      with asking_first [of source_prompt "''Path does not exist''" k] show ?thesis by auto
    qed
    from get_arguments_steps [OF g] show ?thesis
    proof (elim disjE exE conjE)
      fix err assume "get_source E (parse_args c) w = Some (Inl err, w2)"
      from src [OF this] show ?thesis .
    next
      fix v w1 rh assume gs: "get_source E (parse_args c) w = Some (Inr v, w1)"
        and gh: "get_host E (parse_args c) w1 = Some (rh, w2)"
      from src [OF gs] obtain rest where
        r: "stdout w1 = stdout w @ source_error s # source_prompt # rest" by blast
      from get_host_stdout [OF gh] obtain more where "stdout w2 = stdout w1 @ more" by auto
      with r show ?thesis by simp
    qed
  qed
  have C: "\<exists>rest. stdout w2 =
         stdout w1 @ host_error (ns_host (parse_args c)) # host_prompt # rest"
    if gs: "get_source E (parse_args c) w = Some (Inr x, w1)"
      and bad: "\<not> validate_ip (ns_host (parse_args c))"
      and g: "get_arguments E c w = Some (r, w2)"
  proof -
    from get_arguments_steps [OF g] gs obtain rh where
      "get_host E (parse_args c) w1 = Some (rh, w2)" by auto
    from get_host_stdout [OF this] bad obtain k where
      "stdout w2 = stdout w1 @ host_error (ns_host (parse_args c)) #
         attempts host_prompt ''IP address format is invalid'' k @ [host_prompt]"
      by auto
    with asking_first [of host_prompt "''IP address format is invalid''" k]
    show ?thesis by auto
  qed
  from A B C show ?thesis by blast
qed

theorem repair_loop_witness:
  "prompt_for_input (example_env ['' nope '', ''  /tmp/testfile  '', '' 10.0.0.5''] (Exited 0))
     source_prompt
     (validate_local_path
        (example_env ['' nope '', ''  /tmp/testfile  '', '' 10.0.0.5''] (Exited 0)))
     ''Path does not exist'' world0 =
     Some (Inr ''/tmp/testfile'',
       \<lparr>consumed = 2,
        stdout = [source_prompt, retry_line ''Path does not exist'', source_prompt],
        calls = []\<rparr>) \<and>
   validate_local_path
     (example_env ['' nope '', ''  /tmp/testfile  '', '' 10.0.0.5''] (Exited 0))
     ''/tmp/testfile'' \<and>
   strip ''/tmp/testfile'' = ''/tmp/testfile'' \<and>
   \<not> validate_local_path
     (example_env ['' nope '', ''  /tmp/testfile  '', '' 10.0.0.5''] (Exited 0)) ''nothere'' \<and>
   \<not> validate_ip ''999.1.1.1'' \<and>
   get_arguments (example_env ['' nope '', ''  /tmp/testfile  '', '' 10.0.0.5''] (Exited 0))
     (example_argv (Some ''nothere'') (Some ''999.1.1.1'')) world0 =
     Some (Inr request0,
       \<lparr>consumed = 3,
        stdout = [source_error ''nothere'', source_prompt,
                  retry_line ''Path does not exist'', source_prompt,
                  host_error ''999.1.1.1'', host_prompt],
        calls = []\<rparr>) \<and>
   (\<exists>rest. [source_error ''nothere'', source_prompt,
             retry_line ''Path does not exist'', source_prompt,
             host_error ''999.1.1.1'', host_prompt] =
      stdout world0 @ source_error ''nothere'' # source_prompt # rest) \<and>
   (\<exists>rest. [source_error ''nothere'', source_prompt,
             retry_line ''Path does not exist'', source_prompt,
             host_error ''999.1.1.1'', host_prompt] =
      [source_error ''nothere'', source_prompt,
       retry_line ''Path does not exist'', source_prompt] @
      host_error ''999.1.1.1'' # host_prompt # rest)"
proof -
  let ?E = "example_env ['' nope '', ''  /tmp/testfile  '', '' 10.0.0.5''] (Exited 0)"
  let ?c = "example_argv (Some ''nothere'') (Some ''999.1.1.1'')"
  let ?wp = "\<lparr>consumed = 2,
        stdout = [source_prompt, retry_line ''Path does not exist'', source_prompt],
        calls = []\<rparr>"
  let ?w1 = "\<lparr>consumed = 2,
        stdout = [source_error ''nothere'', source_prompt,
                  retry_line ''Path does not exist'', source_prompt],
        calls = []\<rparr>"
  let ?w2 = "\<lparr>consumed = 3,
        stdout = [source_error ''nothere'', source_prompt,
                  retry_line ''Path does not exist'', source_prompt,
                  host_error ''999.1.1.1'', host_prompt],
        calls = []\<rparr>"
  have p: "prompt_for_input ?E source_prompt (validate_local_path ?E) ''Path does not exist''
      world0 = Some (Inr ''/tmp/testfile'', ?wp)" by code_simp
  have g: "get_arguments ?E ?c world0 = Some (Inr request0, ?w2)" by code_simp
  have gs: "get_source ?E (parse_args ?c) world0 = Some (Inr ''/tmp/testfile'', ?w1)"
    by code_simp
  have a: "arg_source ?c = Some ''nothere''" "''nothere'' \<noteq> []"
    by (simp_all add: example_argv_def)
  have nv: "\<not> validate_local_path ?E ''nothere''"
    by (simp add: validate_local_path_def example_env_def)
  have bad: "\<not> validate_ip ''999.1.1.1''" by code_simp
  have h: "\<not> validate_ip (ns_host (parse_args ?c))"
    using bad by (simp add: parse_args_def example_argv_def)
  have nh: "ns_host (parse_args ?c) = ''999.1.1.1''"
    by (simp add: parse_args_def example_argv_def)
  note t = repair_loop [of ?E source_prompt "validate_local_path ?E" "''Path does not exist''"
      world0 "''/tmp/testfile''" ?wp ?c "''nothere''" "Inr request0" ?w2 "''/tmp/testfile''" ?w1]
  from t p have 1: "validate_local_path ?E ''/tmp/testfile''"
    and 2: "strip ''/tmp/testfile'' = ''/tmp/testfile''" by blast+
  from t a nv g have "\<exists>rest. stdout ?w2 =
      stdout world0 @ source_error ''nothere'' # source_prompt # rest" by blast
  then have 3: "\<exists>rest. [source_error ''nothere'', source_prompt,
             retry_line ''Path does not exist'', source_prompt,
             host_error ''999.1.1.1'', host_prompt] =
      stdout world0 @ source_error ''nothere'' # source_prompt # rest" by simp
  from t gs h g have "\<exists>rest. stdout ?w2 =
      stdout ?w1 @ host_error (ns_host (parse_args ?c)) # host_prompt # rest" by blast
  then have 4: "\<exists>rest. [source_error ''nothere'', source_prompt,
             retry_line ''Path does not exist'', source_prompt,
             host_error ''999.1.1.1'', host_prompt] =
      [source_error ''nothere'', source_prompt,
       retry_line ''Path does not exist'', source_prompt] @
      host_error ''999.1.1.1'' # host_prompt # rest" unfolding nh by simp
  show ?thesis by (intro conjI) (fact p 1 2 nv bad g 3 4)+
qed

end
